theory Spec2Isabelle
  imports Complex_Main "HOL-Library.Multiset"
begin

section \<open>Data model of \<^verbatim>\<open>src/app/page.tsx\<close>\<close>

text \<open>
  Numbers of the source (\<^verbatim>\<open>number\<close>) that hold timestamps, versions, tempo and
  indices are modelled as \<^typ>\<open>int\<close>; a note's velocity (0.9, 0.85) as \<^typ>\<open>rat\<close>.
  \<^verbatim>\<open>T | null\<close> is \<^typ>\<open>'a option\<close>. Record fields whose source name is shared
  between two types (\<^verbatim>\<open>id\<close>, \<^verbatim>\<open>userId\<close>) or is an Isabelle keyword
  (\<^verbatim>\<open>notes\<close>) get a prefix.
\<close>

datatype Instrument = drums | keys | bass

datatype DrumRow = kick | snare | hat | clap

record Note =
  n_id :: string
  pitch :: string
  step :: int
  duration :: int
  velocity :: rat

record Loop =
  l_id :: string
  l_userId :: string
  userName :: string
  userColor :: string
  instrument :: Instrument
  l_notes :: "Note list"
  synthParams :: "(string \<times> string) list option"
  createdAt :: int

record Turn =
  userId :: string
  startedAt :: int
  endsAt :: int

record SessionState =
  bpm :: int
  loops :: "Loop list"
  activeTurn :: "Turn option"
  version :: int
  creatorId :: "string option"
  windowCycles :: int
  playbackStartedAt :: "int option"

record Participant =
  p_id :: string
  p_name :: string
  p_color :: string
  joinedAt :: int

type_synonym Identity = Participant

definition STEP_COUNT :: int where
  "STEP_COUNT = 16"

definition DRUM_LOOP_LIMIT :: nat where
  "DRUM_LOOP_LIMIT = 4"

definition MELODIC_LOOP_LIMIT :: nat where
  "MELODIC_LOOP_LIMIT = 2"

definition DRUM_ROWS :: "DrumRow list" where
  "DRUM_ROWS = [kick, snare, hat, clap]"

fun rowId :: "DrumRow \<Rightarrow> string" where
  "rowId kick = ''kick''"
| "rowId snare = ''snare''"
| "rowId hat = ''hat''"
| "rowId clap = ''clap''"

section \<open>JavaScript primitives used by the core\<close>

text \<open>\<^verbatim>\<open>Array.prototype.indexOf\<close>: the first index holding the element, or -1.\<close>

fun indexOf :: "'a list \<Rightarrow> 'a \<Rightarrow> int" where
  "indexOf [] x = - 1"
| "indexOf (y # ys) x =
     (if y = x then 0 else (let r = indexOf ys x in if r < 0 then - 1 else r + 1))"

text \<open>
  The remainder operator \<^verbatim>\<open>%\<close> on integers: it truncates, the sign is the dividend's.
  (A zero divisor gives \<^verbatim>\<open>NaN\<close> in the source; every use below has a positive one.)
\<close>

definition jsRem :: "int \<Rightarrow> int \<Rightarrow> int" where
  "jsRem a n = sgn a * (\<bar>a\<bar> mod \<bar>n\<bar>)"

text \<open>Reading \<^verbatim>\<open>xs[i]\<close>: \<^verbatim>\<open>undefined\<close> (here \<open>None\<close>) outside the array.\<close>

definition elemAt :: "'a list \<Rightarrow> int \<Rightarrow> 'a option" where
  "elemAt xs i = (if 0 \<le> i \<and> i < int (length xs) then Some (xs ! nat i) else None)"

text \<open>\<^verbatim>\<open>Math.round\<close> on an exact rational: the nearest integer, halves upwards.\<close>

definition mathRound :: "rat \<Rightarrow> int" where
  "mathRound x = \<lfloor>x + 1 / 2\<rfloor>"

text \<open>
  \<^verbatim>\<open>Array.prototype.sort(cmp)\<close> is stable: elements that compare equal keep their
  input order. It is modelled as a stable insertion sort driven by the comparator: an
  element is placed before the first later element it does not compare greater than.
\<close>

fun insertBy :: "('a \<Rightarrow> 'a \<Rightarrow> int) \<Rightarrow> 'a \<Rightarrow> 'a list \<Rightarrow> 'a list" where
  "insertBy cmp x [] = [x]"
| "insertBy cmp x (y # ys) = (if cmp x y \<le> 0 then x # y # ys else y # insertBy cmp x ys)"

definition sortBy :: "('a \<Rightarrow> 'a \<Rightarrow> int) \<Rightarrow> 'a list \<Rightarrow> 'a list" where
  "sortBy cmp xs = foldr (insertBy cmp) xs []"

text \<open>Decimal rendering of a step index inside a template string.\<close>

fun showNat :: "nat \<Rightarrow> string" where
  "showNat n =
     (if n < 10 then [char_of (48 + n)] else showNat (n div 10) @ [char_of (48 + n mod 10)])"

declare showNat.simps [simp del]

section \<open>Presence queue\<close>

text \<open>
  \<^verbatim>\<open>const queueFromPresence = (members) =>
  [...members].sort((a, b) => a.joinedAt - b.joinedAt);\<close>
\<close>

definition byJoinedAt :: "Participant \<Rightarrow> Participant \<Rightarrow> int" where
  "byJoinedAt a b = joinedAt a - joinedAt b"

definition queueFromPresence :: "Participant list \<Rightarrow> Participant list" where
  "queueFromPresence members = sortBy byJoinedAt members"

text \<open>\<^verbatim>\<open>clampBpm = (bpm) => Math.min(180, Math.max(60, Math.round(bpm)))\<close>\<close>

definition clampBpm :: "rat \<Rightarrow> int" where
  "clampBpm b = min 180 (max 60 (mathRound b))"

section \<open>Drum drafts\<close>

text \<open>
  \<^verbatim>\<open>drumsToNotes\<close>: for each row of \<^verbatim>\<open>DRUM_ROWS\<close>, in order, one note per active
  step, with id \<^verbatim>\<open>`${row.id}-${step}`\<close>, duration 1 and velocity 0.9.
\<close>

definition drumNote :: "DrumRow \<Rightarrow> nat \<Rightarrow> Note" where
  "drumNote row s =
     \<lparr>n_id = rowId row @ ''-'' @ showNat s, pitch = rowId row, step = int s,
      duration = 1, velocity = 9 / 10\<rparr>"

definition rowNotes :: "DrumRow \<Rightarrow> bool list \<Rightarrow> Note list" where
  "rowNotes row cells = map (drumNote row) (filter (\<lambda>s. cells ! s) [0..<length cells])"

definition drumsToNotes :: "(DrumRow \<Rightarrow> bool list) \<Rightarrow> Note list" where
  "drumsToNotes grid = concat (map (\<lambda>row. rowNotes row (grid row)) DRUM_ROWS)"

definition createEmptyDrums :: "DrumRow \<Rightarrow> bool list" where
  "createEmptyDrums = (\<lambda>row. replicate (nat STEP_COUNT) False)"

section \<open>One peer: the state of the \<^verbatim>\<open>HomeContent\<close> component\<close>

text \<open>
  The fields are the React state and refs the core reads and writes. \<open>sessionState\<close>
  stands for both \<^verbatim>\<open>sessionState\<close> and \<^verbatim>\<open>sessionStateRef.current\<close>, which the
  source always assigns together; \<open>channel\<close> says that \<^verbatim>\<open>channelRef.current\<close> is set.
  \<open>published\<close> lists, in order, the payloads handed to \<^verbatim>\<open>channel.publish("state", _)\<close>, and
  \<open>consoleErrors\<close> what the rejection handler of that call logged. The scale note lists
  are the values of \<^verbatim>\<open>keysScale.notes\<close> and \<^verbatim>\<open>bassScale.notes\<close>.
\<close>

record Peer =
  identity :: Identity
  identityReady :: bool
  channel :: bool
  stateLoaded :: bool
  participants :: "Participant list"
  sessionState :: SessionState
  draftInstrument :: Instrument
  drumsGrid :: "DrumRow \<Rightarrow> bool list"
  pianoKeys :: "Note list"
  pianoBass :: "Note list"
  keysScaleNotes :: "string list"
  bassScaleNotes :: "string list"
  replaceTarget :: "string option"
  published :: "SessionState list"
  consoleErrors :: "string list"

text \<open>The state every component starts with (\<^verbatim>\<open>useState<SessionState>({...})\<close>).\<close>

definition initialSessionState :: SessionState where
  "initialSessionState =
     \<lparr>bpm = 120, loops = [], activeTurn = None, version = 0, creatorId = None,
      windowCycles = 4, playbackStartedAt = None\<rparr>"

definition queue :: "Peer \<Rightarrow> Participant list" where
  "queue p = queueFromPresence (participants p)"

text \<open>\<^verbatim>\<open>isLeader = queue[0]?.id === identity.id\<close>\<close>

definition isLeader :: "Peer \<Rightarrow> bool" where
  "isLeader p = (case queue p of [] \<Rightarrow> False | q # _ \<Rightarrow> p_id q = p_id (identity p))"

text \<open>\<^verbatim>\<open>isMyTurn = sessionState.activeTurn?.userId === identity.id\<close>\<close>

definition isMyTurn :: "Peer \<Rightarrow> bool" where
  "isMyTurn p =
     (case activeTurn (sessionState p) of None \<Rightarrow> False
      | Some t \<Rightarrow> userId t = p_id (identity p))"

text \<open>
  \<^verbatim>\<open>compositionWindowMs\<close>: \<^verbatim>\<open>Math.round((60 / bpm) * STEP_COUNT * windowCycles * 1000)\<close>.
  The source computes in double precision; the model computes the same expression
  exactly. Where \<open>bpm = 0\<close> the source yields \<^verbatim>\<open>Infinity\<close> or \<^verbatim>\<open>NaN\<close> and the model 0.
\<close>

definition windowMsFor :: "int \<Rightarrow> int \<Rightarrow> int" where
  "windowMsFor b cycles =
     mathRound ((60 / of_int b) * of_int STEP_COUNT * 1000 * of_int cycles)"

definition compositionWindowMs :: "Peer \<Rightarrow> int" where
  "compositionWindowMs p =
     windowMsFor (bpm (sessionState p)) (windowCycles (sessionState p))"

text \<open>Truthiness of a \<^verbatim>\<open>string | null | undefined\<close>: set and not empty.\<close>

definition truthy :: "string option \<Rightarrow> bool" where
  "truthy v = (case v of None \<Rightarrow> False | Some s \<Rightarrow> s \<noteq> [])"

section \<open>State reconciler\<close>

text \<open>
  \<^verbatim>\<open>publishState(next)\<close> sets the local state and hands \<open>next\<close> to the relay when a
  channel exists (\<^verbatim>\<open>channelRef.current?.publish\<close>). \<open>relayOk\<close> is the outcome of the
  returned promise: a rejection is only logged.
\<close>

definition publishState :: "bool \<Rightarrow> SessionState \<Rightarrow> Peer \<Rightarrow> Peer" where
  "publishState relayOk next p =
     p\<lparr>sessionState := next,
       published := (if channel p then published p @ [next] else published p),
       consoleErrors :=
         (if channel p \<and> \<not> relayOk then consoleErrors p @ [''publish failed'']
          else consoleErrors p)\<rparr>"

text \<open>
  The handler of \<^verbatim>\<open>channel.subscribe("state", ...)\<close>; \<open>None\<close> is a message without data.
  \<^verbatim>\<open>!sessionStateRef.current.version\<close> holds exactly when the local version is 0.
\<close>

definition onStateMessage :: "SessionState option \<Rightarrow> Peer \<Rightarrow> Peer" where
  "onStateMessage msg p =
     (case msg of
        None \<Rightarrow> p
      | Some incoming \<Rightarrow>
          if version (sessionState p) = 0 \<or> version (sessionState p) \<le> version incoming
          then p\<lparr>sessionState := incoming, stateLoaded := True\<rparr>
          else p)"

text \<open>
  The history fetch that follows the subscription in \<^verbatim>\<open>setup\<close>:
  \<^verbatim>\<open>history.items.find((item) => item.name === "state")\<close>, adopted when it has data.
\<close>

record Message =
  m_name :: string
  m_data :: "SessionState option"

definition historyBootstrap :: "Message list \<Rightarrow> Peer \<Rightarrow> Peer" where
  "historyBootstrap items p =
     (case find (\<lambda>item. m_name item = ''state'') items of
        None \<Rightarrow> p
      | Some latest \<Rightarrow>
          (case m_data latest of
             None \<Rightarrow> p
           | Some incoming \<Rightarrow> p\<lparr>sessionState := incoming, stateLoaded := True\<rparr>))"

text \<open>What the relay delivers to a peer: live messages and the answer to its history fetch.\<close>

datatype Delivery = Live "SessionState option" | History "Message list"

fun deliver :: "Delivery \<Rightarrow> Peer \<Rightarrow> Peer" where
  "deliver (Live msg) p = onStateMessage msg p"
| "deliver (History items) p = historyBootstrap items p"

definition deliverAll :: "Delivery list \<Rightarrow> Peer \<Rightarrow> Peer" where
  "deliverAll ds p = fold deliver ds p"

section \<open>Genesis and turn arbitration\<close>

text \<open>
  \<^verbatim>\<open>queueIds[(currentIdx + 1) % queueIds.length]\<close>, the rotation step shared by the
  leader's arbitration, \<^verbatim>\<open>rotateTurn\<close> and \<^verbatim>\<open>commitDraft\<close>. All three guard it by a
  non-empty queue, and \<^verbatim>\<open>indexOf\<close> is at least -1, so the read is inside the array
  (lemma \<open>nextInQueue_defined\<close>) and the \<open>None\<close> branch of a caller is never taken.
\<close>

definition nextInQueue :: "string list \<Rightarrow> int \<Rightarrow> string option" where
  "nextInQueue queueIds currentIdx =
     elemAt queueIds (jsRem (currentIdx + 1) (int (length queueIds)))"

definition newTurn :: "string \<Rightarrow> int \<Rightarrow> Peer \<Rightarrow> Turn" where
  "newTurn uid now p =
     \<lparr>userId = uid, startedAt = now, endsAt = now + compositionWindowMs p\<rparr>"

text \<open>
  The bootstrap effect (\<^verbatim>\<open>useEffect\<close> at lines 559-581); \<open>now\<close> is its \<^verbatim>\<open>Date.now()\<close>.
\<close>

definition genesisState :: "int \<Rightarrow> Peer \<Rightarrow> SessionState" where
  "genesisState now p =
     \<lparr>bpm = bpm (sessionState p),
      loops = [],
      activeTurn = Some (newTurn (p_id (identity p)) now p),
      version = now,
      creatorId = Some (p_id (identity p)),
      windowCycles = windowCycles (sessionState p),
      playbackStartedAt = Some now\<rparr>"

definition bootstrapEffect :: "bool \<Rightarrow> int \<Rightarrow> Peer \<Rightarrow> Peer" where
  "bootstrapEffect relayOk now p =
     (if \<not> identityReady p \<or> \<not> channel p \<or> stateLoaded p then p
      else case queue p of
        [] \<Rightarrow> p
      | q # _ \<Rightarrow>
          if truthy (creatorId (sessionState p)) then p
          else if p_id q \<noteq> p_id (identity p) then p
          else (publishState relayOk (genesisState now p) p)\<lparr>stateLoaded := True\<rparr>)"

text \<open>
  The leader's arbitration effect (lines 595-635). \<open>tCheck\<close> is the clock read by
  \<^verbatim>\<open>active.endsAt <= Date.now()\<close>, \<open>now\<close> the one that stamps the new turn.
\<close>

definition leaderArbitration :: "bool \<Rightarrow> int \<Rightarrow> int \<Rightarrow> Peer \<Rightarrow> Peer" where
  "leaderArbitration relayOk tCheck now p =
     (if \<not> isLeader p \<or> \<not> channel p then p
      else
        let queueIds = map p_id (queue p) in
        case activeTurn (sessionState p) of
          None \<Rightarrow>
            (case queueIds of
               [] \<Rightarrow> p
             | first # _ \<Rightarrow>
                 publishState relayOk
                   ((sessionState p)\<lparr>activeTurn := Some (newTurn first now p), version := now\<rparr>) p)
        | Some active \<Rightarrow>
            let activeStillHere = userId active \<in> set queueIds;
                expired = endsAt active \<le> tCheck
            in
              if (\<not> activeStillHere \<or> expired) \<and> queueIds \<noteq> [] then
                let currentIndex = indexOf queueIds (userId active) in
                case nextInQueue queueIds currentIndex of
                  None \<Rightarrow> p
                | Some nextId \<Rightarrow>
                    publishState relayOk
                      ((sessionState p)\<lparr>activeTurn := Some (newTurn nextId now p),
                                        version := now\<rparr>) p
              else p)"

text \<open>\<^verbatim>\<open>rotateTurn\<close>, the holder's explicit pass (lines 1122-1135).\<close>

definition rotateTurn :: "bool \<Rightarrow> int \<Rightarrow> Peer \<Rightarrow> Peer" where
  "rotateTurn relayOk now p =
     (if \<not> channel p \<or> queue p = [] then p
      else
        let currentId = map_option userId (activeTurn (sessionState p));
            queueIds = map p_id (queue p);
            currentIdx =
              (case currentId of
                 None \<Rightarrow> - 1
               | Some c \<Rightarrow> if truthy currentId then indexOf queueIds c else - 1)
        in case nextInQueue queueIds currentIdx of
             None \<Rightarrow> p
           | Some nextId \<Rightarrow>
               publishState relayOk
                 ((sessionState p)\<lparr>activeTurn := Some (newTurn nextId now p), version := now\<rparr>) p)"

section \<open>Session controls\<close>

text \<open>\<^verbatim>\<open>toggleSessionPlayback\<close> (lines 887-898).\<close>

definition toggleSessionPlayback :: "bool \<Rightarrow> int \<Rightarrow> Peer \<Rightarrow> Peer" where
  "toggleSessionPlayback relayOk now p =
     (if \<not> channel p then p
      else
        let isPlaying = (playbackStartedAt (sessionState p) \<noteq> None) in
        publishState relayOk
          ((sessionState p)\<lparr>playbackStartedAt := (if isPlaying then None else Some now),
                            version := now\<rparr>) p)"

text \<open>
  \<^verbatim>\<open>bpmInput(value)\<close> (lines 1077-1096). The object literal reads the clock twice: \<open>now\<close>
  stamps the version, \<open>now2\<close> bounds the running turn's end.
\<close>

definition bpmInput :: "bool \<Rightarrow> rat \<Rightarrow> int \<Rightarrow> int \<Rightarrow> Peer \<Rightarrow> Peer" where
  "bpmInput relayOk v now now2 p =
     (let next = clampBpm v;
          windowMs = windowMsFor next (windowCycles (sessionState p));
          active = activeTurn (sessionState p);
          updated = (sessionState p)
            \<lparr>bpm := next, version := now,
             activeTurn :=
               map_option (\<lambda>a. a\<lparr>endsAt := max (startedAt a + windowMs) (now2 + 1500)\<rparr>) active\<rparr>
      in publishState relayOk updated p)"

text \<open>\<^verbatim>\<open>cycleInput(value)\<close> (lines 1098-1120).\<close>

definition cycleInput :: "bool \<Rightarrow> int \<Rightarrow> int \<Rightarrow> int \<Rightarrow> Peer \<Rightarrow> Peer" where
  "cycleInput relayOk v now now2 p =
     (let cycles = (if v \<in> set [2, 4, 8] then v else 4);
          active = activeTurn (sessionState p);
          updated = (sessionState p)
            \<lparr>windowCycles := cycles, version := now,
             activeTurn :=
               map_option
                 (\<lambda>a. a\<lparr>endsAt := max (startedAt a + windowMsFor (bpm (sessionState p)) cycles)
                                      (now2 + 1500)\<rparr>) active\<rparr>
      in publishState relayOk updated p)"

section \<open>Loop commit engine\<close>

text \<open>
  \<^verbatim>\<open>getDraftNotes\<close> (lines 448-462). A melodic note whose pitch is outside the scale
  takes \<^verbatim>\<open>scaleNotes[0]\<close>; the scale generator returns eight notes for every root the
  interface offers, and for an empty scale, where the source would store
  \<^verbatim>\<open>undefined\<close>, the model stores the text \<open>undefined\<close>.
\<close>

definition scaleFallback :: "string list \<Rightarrow> string" where
  "scaleFallback scaleNotes = (case scaleNotes of [] \<Rightarrow> ''undefined'' | f # _ \<Rightarrow> f)"

definition byStep :: "Note \<Rightarrow> Note \<Rightarrow> int" where
  "byStep a b = step a - step b"

definition getDraftNotes :: "Peer \<Rightarrow> Note list" where
  "getDraftNotes p =
     (if draftInstrument p = drums then drumsToNotes (drumsGrid p)
      else
        let scaleNotes = (if draftInstrument p = keys then keysScaleNotes p else bassScaleNotes p);
            chosen = (if draftInstrument p = keys then pianoKeys p else pianoBass p)
        in sortBy byStep
             (map (\<lambda>note. if pitch note \<notin> set scaleNotes
                           then note\<lparr>pitch := scaleFallback scaleNotes\<rparr> else note) chosen))"

text \<open>
  \<^verbatim>\<open>usedDrumSounds\<close> (lines 1147-1154): the pitches of all notes of all committed drum
  loops, as a \<^verbatim>\<open>Set\<close> (insertion order, no duplicates).
\<close>

definition usedDrumSounds :: "Peer \<Rightarrow> string list" where
  "usedDrumSounds p =
     remdups (concat (map (\<lambda>loop. map pitch (l_notes loop))
                          (filter (\<lambda>l. instrument l = drums) (loops (sessionState p)))))"

text \<open>\<^verbatim>\<open>drumConflict\<close> (lines 1157-1163): the conflicting sounds, or \<^verbatim>\<open>null\<close>.\<close>

definition drumConflict :: "Peer \<Rightarrow> string list option" where
  "drumConflict p =
     (if draftInstrument p \<noteq> drums then None
      else
        let draftNotes = drumsToNotes (drumsGrid p);
            draftSounds = remdups (map pitch draftNotes);
            conflicts = filter (\<lambda>s. s \<in> set (usedDrumSounds p)) draftSounds
        in if length conflicts > 0 then Some conflicts else None)"

text \<open>\<^verbatim>\<open>clearDraft\<close> (lines 1137-1144).\<close>

definition clearDraft :: "Peer \<Rightarrow> Peer" where
  "clearDraft p =
     (if draftInstrument p = drums then p\<lparr>drumsGrid := createEmptyDrums\<rparr>
      else if draftInstrument p = keys then p\<lparr>pianoKeys := []\<rparr>
      else p\<lparr>pianoBass := []\<rparr>)"

text \<open>
  The loop set of a successful commit (lines 1187-1200). \<^verbatim>\<open>existing[0]\<close> is read only
  when \<open>existing\<close> has at least \<open>loopLimit\<close> (2 or 4) elements.
\<close>

definition loopLimit :: "Instrument \<Rightarrow> nat" where
  "loopLimit i = (if i = drums then DRUM_LOOP_LIMIT else MELODIC_LOOP_LIMIT)"

definition keepLoops :: "Peer \<Rightarrow> Loop list" where
  "keepLoops p =
     (let existing = filter (\<lambda>l. instrument l = draftInstrument p) (loops (sessionState p)) in
      if length existing \<ge> loopLimit (draftInstrument p) then
        let chosenId = (case replaceTarget p of Some t \<Rightarrow> t | None \<Rightarrow> l_id (hd existing))
        in filter (\<lambda>l. l_id l \<noteq> chosenId) (loops (sessionState p))
      else filter (\<lambda>l. instrument l \<noteq> draftInstrument p) (loops (sessionState p)))"

definition newLoop :: "string \<Rightarrow> int \<Rightarrow> Peer \<Rightarrow> Loop" where
  "newLoop freshId now p =
     \<lparr>l_id = freshId,
      l_userId = p_id (identity p),
      userName = p_name (identity p),
      userColor = p_color (identity p),
      instrument = draftInstrument p,
      l_notes = getDraftNotes p,
      synthParams = Some [],
      createdAt = now\<rparr>"

text \<open>
  \<^verbatim>\<open>commitDraft\<close> (lines 1165-1230). \<open>freshId\<close> is the value of \<^verbatim>\<open>nanoid(8)\<close>, \<open>now\<close> the
  one \<^verbatim>\<open>Date.now()\<close> of the call.
\<close>

definition commitDraft :: "bool \<Rightarrow> string \<Rightarrow> int \<Rightarrow> Peer \<Rightarrow> Peer" where
  "commitDraft relayOk freshId now p =
     (if \<not> isMyTurn p then p
      else if getDraftNotes p = [] then p
      else if draftInstrument p = drums \<and> drumConflict p \<noteq> None then p
      else
        let updatedLoops = keepLoops p @ [newLoop freshId now p];
            queueIds = map p_id (queue p);
            nextTurn =
              (if queueIds \<noteq> [] then
                 map_option (\<lambda>nextId. newTurn nextId now p)
                   (nextInQueue queueIds (indexOf queueIds (p_id (identity p))))
               else None)
        in clearDraft
             ((publishState relayOk
                 ((sessionState p)\<lparr>loops := updatedLoops, activeTurn := nextTurn,
                                   version := now\<rparr>) p)
              \<lparr>replaceTarget := None\<rparr>))"

section \<open>Entry points and predicates of the properties\<close>

text \<open>
  A peer right after \<^verbatim>\<open>setup\<close> has attached the channel and stored the presence set:
  every other field has the value its \<^verbatim>\<open>useState\<close> gives it (C major from MIDI 60 for
  the keys, from MIDI 36 for the bass).
\<close>

definition joinedPeer :: "Identity \<Rightarrow> Participant list \<Rightarrow> Peer" where
  "joinedPeer ident members =
     \<lparr>identity = ident, identityReady = True, channel = True, stateLoaded = False,
      participants = queueFromPresence members,
      sessionState = initialSessionState,
      draftInstrument = drums,
      drumsGrid = createEmptyDrums,
      pianoKeys = [], pianoBass = [],
      keysScaleNotes = [''C4'', ''D4'', ''E4'', ''F4'', ''G4'', ''A4'', ''B4'', ''C5''],
      bassScaleNotes = [''C2'', ''D2'', ''E2'', ''F2'', ''G2'', ''A2'', ''B2'', ''C3''],
      replaceTarget = None, published = [], consoleErrors = []\<rparr>"

text \<open>
  The operations of a peer that call \<^verbatim>\<open>publishState\<close>, each with the clock readings and
  inputs it consumes; \<open>stamp\<close> is the reading that becomes \<^verbatim>\<open>version\<close>.
\<close>

datatype Action =
    Bootstrap int
  | Arbitrate int int
  | PassTurn int
  | TogglePlayback int
  | BpmChange rat int int
  | CycleChange int int int
  | Commit string int

fun perform :: "bool \<Rightarrow> Action \<Rightarrow> Peer \<Rightarrow> Peer" where
  "perform ok (Bootstrap now) p = bootstrapEffect ok now p"
| "perform ok (Arbitrate tCheck now) p = leaderArbitration ok tCheck now p"
| "perform ok (PassTurn now) p = rotateTurn ok now p"
| "perform ok (TogglePlayback now) p = toggleSessionPlayback ok now p"
| "perform ok (BpmChange v now now2) p = bpmInput ok v now now2 p"
| "perform ok (CycleChange v now now2) p = cycleInput ok v now now2 p"
| "perform ok (Commit freshId now) p = commitDraft ok freshId now p"

fun stamp :: "Action \<Rightarrow> int" where
  "stamp (Bootstrap now) = now"
| "stamp (Arbitrate tCheck now) = now"
| "stamp (PassTurn now) = now"
| "stamp (TogglePlayback now) = now"
| "stamp (BpmChange v now now2) = now"
| "stamp (CycleChange v now now2) = now"
| "stamp (Commit freshId now) = now"

text \<open>The number of committed loops of an instrument, and the capacity bounds.\<close>

definition loopCount :: "Instrument \<Rightarrow> Loop list \<Rightarrow> nat" where
  "loopCount i ls = length (filter (\<lambda>l. instrument l = i) ls)"

definition withinCapacity :: "Loop list \<Rightarrow> bool" where
  "withinCapacity ls =
     (loopCount drums ls \<le> loopLimit drums \<and> loopCount keys ls \<le> loopLimit keys
      \<and> loopCount bass ls \<le> loopLimit bass)"

text \<open>The voices (pitches) a note list uses.\<close>

definition voices :: "Note list \<Rightarrow> string set" where
  "voices ns = set (map pitch ns)"

text \<open>
  Drum exclusivity of a loop list: no voice is used by two drum loops at different
  positions of the list.
\<close>

fun drumExclusive :: "Loop list \<Rightarrow> bool" where
  "drumExclusive [] = True"
| "drumExclusive (l # ls) =
     ((instrument l = drums \<longrightarrow>
         (\<forall>m \<in> set ls. instrument m = drums \<longrightarrow> voices (l_notes l) \<inter> voices (l_notes m) = {}))
      \<and> drumExclusive ls)"




section \<open>Scenarios\<close>

text \<open>The three participants of the specification's scenarios, joining at 0, 1 and 2.\<close>

definition P0 :: Participant where
  "P0 = \<lparr>p_id = ''P0'', p_name = ''Echo-100'', p_color = ''#ffb300'', joinedAt = 0\<rparr>"

definition P1 :: Participant where
  "P1 = \<lparr>p_id = ''P1'', p_name = ''Pulse-200'', p_color = ''#ff5e6c'', joinedAt = 1\<rparr>"

definition P2 :: Participant where
  "P2 = \<lparr>p_id = ''P2'', p_name = ''Orbit-300'', p_color = ''#45d4e5'', joinedAt = 2\<rparr>"

text \<open>
  Scenario E: \<open>P0\<close> and \<open>P1\<close>, each alone in its view of the queue, bootstrap the session
  at clock readings 1000 and 1001.
\<close>

definition genesis1000 :: SessionState where
  "genesis1000 = genesisState 1000 (joinedPeer P0 [P0])"

definition genesis1001 :: SessionState where
  "genesis1001 = genesisState 1001 (joinedPeer P1 [P1])"

text \<open>A relay message named \<^verbatim>\<open>state\<close> that carries a session state.\<close>

definition stateMsg :: "SessionState \<Rightarrow> Message" where
  "stateMsg s = \<lparr>m_name = ''state'', m_data = Some s\<rparr>"

text \<open>
  Scenario B after \<open>P1\<close> has left: the leader \<open>P0\<close> sees the queue \<open>[P0, P2]\<close> while the
  session state still names \<open>P1\<close> as the holder of a turn that ends at 65000.
\<close>

definition scenarioB :: Peer where
  "scenarioB =
     (joinedPeer P0 [P0, P2])
       \<lparr>stateLoaded := True,
        sessionState :=
          (genesisState 1000 (joinedPeer P0 [P0, P1, P2]))
            \<lparr>activeTurn := Some \<lparr>userId = ''P1'', startedAt = 33000, endsAt = 65000\<rparr>,
             version := 33000\<rparr>\<rparr>"

text \<open>
  \<open>followerP2\<close> has adopted the genesis state that \<open>P1\<close> stamped 1001; \<open>founderP0\<close> has
  bootstrapped a session of its own at clock reading 1000.
\<close>

definition followerP2 :: Peer where
  "followerP2 = onStateMessage (Some genesis1001) (joinedPeer P2 [P0, P1, P2])"

definition founderP0 :: Peer where
  "founderP0 = bootstrapEffect True 1000 (joinedPeer P0 [P0])"

text \<open>
  Fixtures for the commit engine: committed loops of \<open>P1\<close>, a drum grid with a kick on
  step 0, and \<open>P0\<close> holding the turn over a given loop set; \<open>fullDrums\<close> has four drum
  loops committed and the first of them as replacement target.
\<close>

definition drumLoopOf :: "string \<Rightarrow> DrumRow \<Rightarrow> Loop" where
  "drumLoopOf lid row =
     \<lparr>l_id = lid, l_userId = ''P1'', userName = ''Pulse-200'', userColor = ''#ff5e6c'',
      instrument = drums, l_notes = [drumNote row 0], synthParams = Some [],
      createdAt = 500\<rparr>"

definition keysLoopOf :: "string \<Rightarrow> Loop" where
  "keysLoopOf lid =
     \<lparr>l_id = lid, l_userId = ''P1'', userName = ''Pulse-200'', userColor = ''#ff5e6c'',
      instrument = keys,
      l_notes = [\<lparr>n_id = ''aB3dE9'', pitch = ''C4'', step = 0, duration = 1,
                  velocity = 85 / 100\<rparr>],
      synthParams = Some [], createdAt = 500\<rparr>"

definition kickGrid :: "DrumRow \<Rightarrow> bool list" where
  "kickGrid = createEmptyDrums(kick := True # replicate 15 False)"

definition holderP0 :: "Loop list \<Rightarrow> Peer" where
  "holderP0 ls = founderP0\<lparr>sessionState := (sessionState founderP0)\<lparr>loops := ls\<rparr>\<rparr>"

definition kickDraft :: "Loop list \<Rightarrow> Peer" where
  "kickDraft ls = (holderP0 ls)\<lparr>drumsGrid := kickGrid\<rparr>"

definition fullDrums :: Peer where
  "fullDrums =
     (kickDraft [drumLoopOf ''d1'' kick, drumLoopOf ''d2'' snare, drumLoopOf ''d3'' hat,
                 drumLoopOf ''d4'' clap])
       \<lparr>replaceTarget := Some ''d1''\<rparr>"

section \<open>Facts about the primitives\<close>

lemma insertBy_byJoinedAt: "insertBy byJoinedAt x xs = insort_key joinedAt x xs"
  by (induction xs) (simp_all add: byJoinedAt_def)

lemma queueFromPresence_sort_key: "queueFromPresence members = sort_key joinedAt members"
  by (induction members) (simp_all add: queueFromPresence_def sortBy_def insertBy_byJoinedAt)

lemma queueFromPresence_sorted: "sorted (map joinedAt (queueFromPresence members))"
  by (simp add: queueFromPresence_sort_key)

lemma queueFromPresence_mset: "mset (queueFromPresence members) = mset members"
  by (simp add: queueFromPresence_sort_key)

section \<open>Presence queue: determinism\<close>

text \<open>
  C4. The claim: any two permutations of one member list give the same queue, ties on
  \<open>joinedAt\<close> being settled by a second key. The comparator looks at \<open>joinedAt\<close> only and
  the sort is stable, so two members that joined at the same instant come out in the
  order in which they were enumerated: the two enumerations below give different queues.
\<close>

theorem queue_order_depends_on_enumeration:
  "queueFromPresence
     [\<lparr>p_id = ''a'', p_name = ''Echo-100'', p_color = ''#ffb300'', joinedAt = 5\<rparr>,
      \<lparr>p_id = ''b'', p_name = ''Tape-200'', p_color = ''#ff5e6c'', joinedAt = 5\<rparr>]
   \<noteq> queueFromPresence
     [\<lparr>p_id = ''b'', p_name = ''Tape-200'', p_color = ''#ff5e6c'', joinedAt = 5\<rparr>,
      \<lparr>p_id = ''a'', p_name = ''Echo-100'', p_color = ''#ffb300'', joinedAt = 5\<rparr>]"
  by (simp add: queueFromPresence_def sortBy_def byJoinedAt_def)

text \<open>
  C4, as the code has it: two enumerations of the same members in which no two members
  share a \<open>joinedAt\<close> give the same queue; and in every queue, whatever the timestamps,
  the members that joined at one instant \<open>t\<close> stand in the order of the enumeration.
\<close>

theorem queue_deterministic_for_distinct_joinedAt:
  "(mset xs = mset ys \<and> distinct (map joinedAt xs)
      \<longrightarrow> queueFromPresence xs = queueFromPresence ys)
   \<and> filter (\<lambda>m. joinedAt m = t) (queueFromPresence xs) = filter (\<lambda>m. joinedAt m = t) xs"
proof (intro conjI impI)
  assume h: "mset xs = mset ys \<and> distinct (map joinedAt xs)"
  then have "inj_on joinedAt (set xs)"
    by (simp add: distinct_map)
  with h show "queueFromPresence xs = queueFromPresence ys"
    unfolding queueFromPresence_sort_key by (intro sort_key_eq_sort_key) simp_all
next
  show "filter (\<lambda>m. joinedAt m = t) (queueFromPresence xs) = filter (\<lambda>m. joinedAt m = t) xs"
    unfolding queueFromPresence_sort_key by (rule sort_key_stable)
qed

theorem queue_deterministic_witness:
  "mset [\<lparr>p_id = ''b'', p_name = ''Tape-200'', p_color = ''#ff5e6c'', joinedAt = 2\<rparr>,
         \<lparr>p_id = ''a'', p_name = ''Echo-100'', p_color = ''#ffb300'', joinedAt = 1\<rparr>]
   = mset [\<lparr>p_id = ''a'', p_name = ''Echo-100'', p_color = ''#ffb300'', joinedAt = 1\<rparr>,
           \<lparr>p_id = ''b'', p_name = ''Tape-200'', p_color = ''#ff5e6c'', joinedAt = 2\<rparr>]
   \<and> distinct (map joinedAt
         [\<lparr>p_id = ''b'', p_name = ''Tape-200'', p_color = ''#ff5e6c'', joinedAt = 2\<rparr>,
          \<lparr>p_id = ''a'', p_name = ''Echo-100'', p_color = ''#ffb300'', joinedAt = 1\<rparr>])
   \<and> queueFromPresence
        [\<lparr>p_id = ''b'', p_name = ''Tape-200'', p_color = ''#ff5e6c'', joinedAt = 2\<rparr>,
         \<lparr>p_id = ''a'', p_name = ''Echo-100'', p_color = ''#ffb300'', joinedAt = 1\<rparr>]
      = queueFromPresence
        [\<lparr>p_id = ''a'', p_name = ''Echo-100'', p_color = ''#ffb300'', joinedAt = 1\<rparr>,
         \<lparr>p_id = ''b'', p_name = ''Tape-200'', p_color = ''#ff5e6c'', joinedAt = 2\<rparr>]
   \<and> filter (\<lambda>m. joinedAt m = 5)
        (queueFromPresence
          [\<lparr>p_id = ''b'', p_name = ''Tape-200'', p_color = ''#ff5e6c'', joinedAt = 5\<rparr>,
           \<lparr>p_id = ''c'', p_name = ''Neon-300'', p_color = ''#45d4e5'', joinedAt = 1\<rparr>,
           \<lparr>p_id = ''a'', p_name = ''Echo-100'', p_color = ''#ffb300'', joinedAt = 5\<rparr>])
      = [\<lparr>p_id = ''b'', p_name = ''Tape-200'', p_color = ''#ff5e6c'', joinedAt = 5\<rparr>,
         \<lparr>p_id = ''a'', p_name = ''Echo-100'', p_color = ''#ffb300'', joinedAt = 5\<rparr>]"
proof -
  let ?b = "\<lparr>p_id = ''b'', p_name = ''Tape-200'', p_color = ''#ff5e6c'', joinedAt = 2\<rparr>"
  let ?a = "\<lparr>p_id = ''a'', p_name = ''Echo-100'', p_color = ''#ffb300'', joinedAt = 1\<rparr>"
  let ?tied = "[\<lparr>p_id = ''b'', p_name = ''Tape-200'', p_color = ''#ff5e6c'', joinedAt = 5\<rparr>,
           \<lparr>p_id = ''c'', p_name = ''Neon-300'', p_color = ''#45d4e5'', joinedAt = 1\<rparr>,
           \<lparr>p_id = ''a'', p_name = ''Echo-100'', p_color = ''#ffb300'', joinedAt = 5\<rparr>]"
  have m: "mset [?b, ?a] = mset [?a, ?b]" by simp
  have d: "distinct (map joinedAt [?b, ?a])" by simp
  have t: "filter (\<lambda>m. joinedAt m = 5) ?tied
           = [\<lparr>p_id = ''b'', p_name = ''Tape-200'', p_color = ''#ff5e6c'', joinedAt = 5\<rparr>,
              \<lparr>p_id = ''a'', p_name = ''Echo-100'', p_color = ''#ffb300'', joinedAt = 5\<rparr>]"
    by simp
  from queue_deterministic_for_distinct_joinedAt [of "[?b, ?a]" "[?a, ?b]" 0] queue_deterministic_for_distinct_joinedAt [of ?tied ?tied 5] m d t
  show ?thesis by simp
qed

section \<open>State reconciler: merge rule and convergence\<close>

lemma windowMsFor_default: "windowMsFor 120 4 = 32000"
  by (simp add: windowMsFor_def mathRound_def STEP_COUNT_def floor_unique)

lemma version_genesisState: "version (genesisState now p) = now"
  by (simp add: genesisState_def)

text \<open>The live handler: what it adopts, for any local state and any incoming state.\<close>

lemma onStateMessage_merge_rule:
  "sessionState (onStateMessage (Some s) p) =
     (if version (sessionState p) = 0 \<or> version (sessionState p) \<le> version s then s
      else sessionState p)"
  by (simp add: onStateMessage_def)

text \<open>
  For an incoming version that is not negative (every published version is a clock
  reading) the check on version 0 adds nothing: the handler adopts exactly when the
  incoming version is at least the local one, and otherwise leaves the peer as it is.
\<close>

lemma onStateMessage_nonneg:
  "0 \<le> version s \<Longrightarrow>
   onStateMessage (Some s) p =
     (if version (sessionState p) \<le> version s then p\<lparr>sessionState := s, stateLoaded := True\<rparr>
      else p)"
  by (auto simp add: onStateMessage_def)

text \<open>The history fetch adopts the state message it finds, whatever the versions.\<close>

lemma historyBootstrap_unconditional:
  "sessionState (historyBootstrap [stateMsg s] p) = s"
  by (simp add: historyBootstrap_def stateMsg_def)

text \<open>
  Live deliveries alone converge. From a local state with a positive version, a run of
  live messages with positive versions ends in the local state or one of the messages,
  at a version that bounds all of them.
\<close>

lemma live_fold_bounds:
  assumes "0 < version (sessionState p)" and "\<forall>s \<in> set ss. 0 < version s"
  shows "(sessionState (fold (\<lambda>s. onStateMessage (Some s)) ss p) = sessionState p
          \<or> sessionState (fold (\<lambda>s. onStateMessage (Some s)) ss p) \<in> set ss)
       \<and> version (sessionState p) \<le> version (sessionState (fold (\<lambda>s. onStateMessage (Some s)) ss p))
       \<and> (\<forall>s \<in> set ss. version s \<le> version (sessionState (fold (\<lambda>s. onStateMessage (Some s)) ss p)))"
  using assms
proof (induction ss arbitrary: p)
  case Nil
  then show ?case by simp
next
  case (Cons a ss)
  let ?q = "onStateMessage (Some a) p"
  have pos: "0 < version (sessionState ?q)"
    using Cons.prems by (simp add: onStateMessage_merge_rule)
  have ih: "(sessionState (fold (\<lambda>s. onStateMessage (Some s)) ss ?q) = sessionState ?q
          \<or> sessionState (fold (\<lambda>s. onStateMessage (Some s)) ss ?q) \<in> set ss)
       \<and> version (sessionState ?q) \<le> version (sessionState (fold (\<lambda>s. onStateMessage (Some s)) ss ?q))
       \<and> (\<forall>s \<in> set ss. version s \<le> version (sessionState (fold (\<lambda>s. onStateMessage (Some s)) ss ?q)))"
    using Cons.IH [OF pos] Cons.prems(2) by simp
  have q: "(sessionState ?q = sessionState p \<or> sessionState ?q = a)
           \<and> version (sessionState p) \<le> version (sessionState ?q)
           \<and> version a \<le> version (sessionState ?q)"
    using Cons.prems by (auto simp add: onStateMessage_merge_rule)
  from ih q show ?case by (auto simp add: Let_def)
qed

text \<open>
  Hence a fresh peer (version 0) that receives, through the live subscription only, the
  updates \<open>ss\<close> (positive, pairwise distinct versions) in any order \<open>ds\<close> ends with the
  update \<open>m\<close> of maximal version.
\<close>

lemma live_only_convergence:
  assumes fresh: "version (sessionState p) = 0"
    and pos: "\<forall>s \<in> set ss. 0 < version s"
    and dist: "distinct (map version ss)"
    and perm: "mset ds = mset ss"
    and top: "m \<in> set ss" "\<forall>s \<in> set ss. version s \<le> version m"
  shows "sessionState (deliverAll (map (\<lambda>s. Live (Some s)) ds) p) = m"
proof -
  have sets: "set ds = set ss" using perm by (rule mset_eq_setD)
  from top(1) sets obtain d ds' where ds: "ds = d # ds'"
    by (cases ds) auto
  let ?q = "onStateMessage (Some d) p"
  have qd: "sessionState ?q = d" using fresh by (simp add: onStateMessage_merge_rule)
  have din: "d \<in> set ss" and restin: "set ds' \<subseteq> set ss" using sets ds by auto
  have dpos: "0 < version (sessionState ?q)" using qd pos din by simp
  have rest: "\<forall>s \<in> set ds'. 0 < version s" using pos restin by auto
  let ?r = "sessionState (fold (\<lambda>s. onStateMessage (Some s)) ds' ?q)"
  have run: "deliverAll (map (\<lambda>s. Live (Some s)) ds) p
             = fold (\<lambda>s. onStateMessage (Some s)) ds' ?q"
  proof -
    have "(\<lambda>x. deliver (Live (Some x))) = (\<lambda>s. onStateMessage (Some s))"
      by (intro ext) simp
    then show ?thesis by (simp add: deliverAll_def ds fold_map comp_def)
  qed
  from live_fold_bounds [OF dpos rest]
  have b: "(?r = d \<or> ?r \<in> set ds') \<and> version d \<le> version ?r
           \<and> (\<forall>s \<in> set ds'. version s \<le> version ?r)"
    using qd by simp
  then have mem: "?r \<in> set ss" using din restin by auto
  have "m = d \<or> m \<in> set ds'" using top(1) sets ds by auto
  with b have "version m \<le> version ?r" by auto
  moreover have "version ?r \<le> version m" using top(2) mem by simp
  ultimately have "version ?r = version m" by simp
  with dist mem top(1) have "?r = m"
    by (meson distinct_map inj_onD)
  with run show ?thesis by simp
qed

text \<open>
  C1. The claim: updates with pairwise distinct versions, delivered to a reconciler in
  any order, leave it at the update of maximal version; the two genesis states of
  Scenario E (versions 1000 and 1001) leave a third peer at the version-1001 payload in
  either order. The live handler compares versions (\<open>live_only_convergence\<close>), the
  history fetch of the same \<^verbatim>\<open>setup\<close> does not. A third peer that receives both genesis
  states live and then the answer to its history fetch, which holds the state the relay
  stored last, ends at version 1000; with the history answer first it ends at 1001.
\<close>

theorem scenario_E_depends_on_history_order:
  "sessionState
     (deliverAll
        [Live (Some genesis1001), Live (Some genesis1000), History [stateMsg genesis1000]]
        (joinedPeer P2 [P0, P1, P2])) = genesis1000
   \<and> sessionState
       (deliverAll
          [History [stateMsg genesis1000], Live (Some genesis1001), Live (Some genesis1000)]
          (joinedPeer P2 [P0, P1, P2])) = genesis1001
   \<and> version genesis1000 = 1000 \<and> version genesis1001 = 1001"
  by (simp add: deliverAll_def onStateMessage_def historyBootstrap_def stateMsg_def
      genesis1000_def genesis1001_def version_genesisState joinedPeer_def
      initialSessionState_def)

text \<open>
  C2. The claim: an incoming update is adopted if and only if its version is at least
  the local one, whole, and a strictly smaller version leaves the local state unchanged,
  for the live subscription and for the history fetch on join. The live handler does so
  (\<open>onStateMessage_nonneg\<close>). The history fetch has no version check: a peer that has
  adopted the version-1001 state from the live subscription replaces it by the
  version-1000 state its history fetch returns.
\<close>

theorem history_fetch_adopts_smaller_version:
  "sessionState
     (historyBootstrap [stateMsg genesis1000]
        (onStateMessage (Some genesis1001) (joinedPeer P2 [P0, P1, P2]))) = genesis1000
   \<and> version genesis1000
       < version (sessionState (onStateMessage (Some genesis1001) (joinedPeer P2 [P0, P1, P2])))"
  by (simp add: onStateMessage_def historyBootstrap_def stateMsg_def
      genesis1000_def genesis1001_def version_genesisState joinedPeer_def
      initialSessionState_def)

section \<open>Turn rotation\<close>

lemma indexOf_ge: "- 1 \<le> indexOf xs x"
  by (induction xs) (auto simp add: Let_def)

lemma indexOf_lt: "indexOf xs x < int (length xs)"
  by (induction xs) (auto simp add: Let_def)

lemma indexOf_notin: "x \<notin> set xs \<Longrightarrow> indexOf xs x = - 1"
  by (induction xs) (auto simp add: Let_def)

lemma indexOf_in: "x \<in> set xs \<Longrightarrow> 0 \<le> indexOf xs x \<and> xs ! nat (indexOf xs x) = x"
proof (induction xs)
  case Nil
  then show ?case by simp
next
  case (Cons y ys)
  show ?case
  proof (cases "y = x")
    case True
    then show ?thesis by simp
  next
    case False
    with Cons have ih: "0 \<le> indexOf ys x \<and> ys ! nat (indexOf ys x) = x" by simp
    then have "nat (indexOf ys x + 1) = Suc (nat (indexOf ys x))" by linarith
    with False ih show ?thesis by (simp add: Let_def)
  qed
qed

lemma nextInQueue_defined:
  assumes "xs \<noteq> []" and "- 1 \<le> i"
  shows "\<exists>y. nextInQueue xs i = Some y \<and> y \<in> set xs"
proof -
  have n: "0 < int (length xs)" using assms(1) by simp
  have a: "0 \<le> i + 1" using assms(2) by simp
  have "jsRem (i + 1) (int (length xs)) = (i + 1) mod int (length xs)"
    using a n by (cases "i + 1 = 0") (simp_all add: jsRem_def sgn_if)
  moreover have "0 \<le> (i + 1) mod int (length xs)" "(i + 1) mod int (length xs) < int (length xs)"
    using n by simp_all
  ultimately show ?thesis
    by (simp add: nextInQueue_def elemAt_def)
qed

lemma nextInQueue_head: "nextInQueue (x # xs) (- 1) = Some x"
  by (simp add: nextInQueue_def elemAt_def jsRem_def)

text \<open>
  C3. The claim: when the holder of the active turn is no longer in the queue, the next
  turn goes to the member at the departed holder's last known index, modulo the new
  length; in Scenario B, to \<open>P2\<close>. The code keeps no last index: \<^verbatim>\<open>indexOf\<close> of an absent
  holder is -1, so the rotation lands on index 0. In Scenario B the leader \<open>P0\<close> gives the
  turn to itself.
\<close>

theorem scenario_B_rotates_to_P0:
  "map_option userId (activeTurn (sessionState (leaderArbitration True 40000 40000 scenarioB)))
     = Some (p_id P0)
   \<and> map_option userId (activeTurn (sessionState (leaderArbitration True 40000 40000 scenarioB)))
     \<noteq> Some (p_id P2)
   \<and> map p_id (queue scenarioB) = [p_id P0, p_id P2]
   \<and> map_option userId (activeTurn (sessionState scenarioB)) = Some (p_id P1)"
  by (simp add: leaderArbitration_def scenarioB_def joinedPeer_def isLeader_def queue_def
      queueFromPresence_def sortBy_def byJoinedAt_def P0_def P1_def P2_def
      genesisState_def nextInQueue_def elemAt_def jsRem_def newTurn_def publishState_def
      Let_def)

text \<open>
  C3, as the code has it: when the holder of the active turn is not in the queue and the
  queue is not empty, the next turn goes to the head of the queue, both in the holder's
  explicit pass and in the leader's arbitration.
\<close>

theorem departed_holder_rotates_to_queue_head:
  assumes "channel p" and "queue p = q # qs"
    and "activeTurn (sessionState p) = Some active"
    and "userId active \<notin> set (map p_id (queue p))"
  shows "activeTurn (sessionState (rotateTurn ok now p)) = Some (newTurn (p_id q) now p)
       \<and> (isLeader p \<longrightarrow>
            activeTurn (sessionState (leaderArbitration ok tCheck now p))
              = Some (newTurn (p_id q) now p))"
proof -
  have idx: "indexOf (map p_id (queue p)) (userId active) = - 1"
    using assms(4) by (rule indexOf_notin)
  have nxt: "nextInQueue (map p_id (queue p)) (- 1) = Some (p_id q)"
    using assms(2) by (simp add: nextInQueue_head)
  have r: "activeTurn (sessionState (rotateTurn ok now p)) = Some (newTurn (p_id q) now p)"
    using assms(1,2,3) idx nxt
    by (simp add: rotateTurn_def Let_def publishState_def)
  have l: "isLeader p \<Longrightarrow>
      activeTurn (sessionState (leaderArbitration ok tCheck now p)) = Some (newTurn (p_id q) now p)"
    using assms idx nxt
    by (simp add: leaderArbitration_def Let_def publishState_def)
  from r l show ?thesis by blast
qed

theorem departed_holder_witness:
  "channel scenarioB \<and> queue scenarioB = [P0, P2]
   \<and> activeTurn (sessionState scenarioB) = Some \<lparr>userId = ''P1'', startedAt = 33000, endsAt = 65000\<rparr>
   \<and> ''P1'' \<notin> set (map p_id (queue scenarioB))
   \<and> isLeader scenarioB
   \<and> activeTurn (sessionState (rotateTurn True 40000 scenarioB))
       = Some \<lparr>userId = ''P0'', startedAt = 40000, endsAt = 72000\<rparr>
   \<and> activeTurn (sessionState (leaderArbitration True 40000 40000 scenarioB))
       = Some \<lparr>userId = ''P0'', startedAt = 40000, endsAt = 72000\<rparr>"
proof -
  have c: "channel scenarioB" by (simp add: scenarioB_def joinedPeer_def)
  have q: "queue scenarioB = P0 # [P2]"
    by (simp add: scenarioB_def joinedPeer_def queue_def queueFromPresence_def sortBy_def
        byJoinedAt_def P0_def P2_def)
  have a: "activeTurn (sessionState scenarioB)
           = Some \<lparr>userId = ''P1'', startedAt = 33000, endsAt = 65000\<rparr>"
    by (simp add: scenarioB_def)
  have n: "userId \<lparr>userId = ''P1'', startedAt = 33000, endsAt = 65000\<rparr>
           \<notin> set (map p_id (queue scenarioB))"
    by (simp add: q P0_def P2_def)
  have l: "isLeader scenarioB"
    by (simp add: isLeader_def q) (simp add: scenarioB_def joinedPeer_def)
  have w: "newTurn (p_id P0) 40000 scenarioB = \<lparr>userId = ''P0'', startedAt = 40000, endsAt = 72000\<rparr>"
    by (simp add: newTurn_def compositionWindowMs_def scenarioB_def genesisState_def
        joinedPeer_def initialSessionState_def windowMsFor_default P0_def)
  from departed_holder_rotates_to_queue_head [OF c q a n, of True 40000 40000] c q a n l w
  show ?thesis by simp
qed

section \<open>Publishing\<close>

lemma publishState_fields:
  "sessionState (publishState ok next p) = next"
  "published (publishState ok next p) = (if channel p then published p @ [next] else published p)"
  "channel (publishState ok next p) = channel p"
  by (simp_all add: publishState_def)

lemma clearDraft_fields:
  "sessionState (clearDraft p) = sessionState p"
  "published (clearDraft p) = published p"
  by (simp_all add: clearDraft_def)

text \<open>
  C5. The claim: every publish operation stamps a version strictly greater than the
  local state's version, and the next state is adopted locally at once, whatever the
  relay answers. The operations stamp \<^verbatim>\<open>Date.now()\<close> and never look at the local version.
  A peer whose clock reads 900 while it holds a state stamped 1001 by another peer
  publishes version 900; a peer that toggles playback in the millisecond of its own
  bootstrap publishes the version it already has.
\<close>

theorem publish_version_not_above_local:
  "version (sessionState followerP2) = 1001
   \<and> published (toggleSessionPlayback True 900 followerP2)
       = [sessionState (toggleSessionPlayback True 900 followerP2)]
   \<and> version (sessionState (toggleSessionPlayback True 900 followerP2)) = 900
   \<and> version (sessionState founderP0) = 1000
   \<and> published (toggleSessionPlayback True 1000 founderP0)
       = published founderP0 @ [sessionState (toggleSessionPlayback True 1000 founderP0)]
   \<and> \<not> version (sessionState founderP0)
         < version (sessionState (toggleSessionPlayback True 1000 founderP0))"
  by (simp add: followerP2_def founderP0_def toggleSessionPlayback_def publishState_def
      onStateMessage_def genesis1001_def genesisState_def joinedPeer_def
      initialSessionState_def bootstrapEffect_def queue_def queueFromPresence_def sortBy_def
      truthy_def Let_def)

text \<open>
  C5, as the code has it: whenever one of the operations (bootstrap, arbitration, pass,
  playback toggle, BPM change, cycle change, loop commit) hands a state to the relay,
  that state is the peer's new local state, its version is the clock reading the
  operation took, and the local state does not depend on whether the relay accepts the
  message. So the published version exceeds the local one exactly when the clock
  reading does.
\<close>

theorem publish_stamps_clock_reading:
  assumes "published (perform ok a p) \<noteq> published p"
  shows "published (perform ok a p) = published p @ [sessionState (perform ok a p)]
       \<and> version (sessionState (perform ok a p)) = stamp a
       \<and> sessionState (perform (\<not> ok) a p) = sessionState (perform ok a p)"
proof (cases a)
  case (Bootstrap now)
  with assms show ?thesis
    by (auto simp add: bootstrapEffect_def publishState_def genesisState_def
        split: if_splits list.splits)
next
  case (Arbitrate tCheck now)
  with assms show ?thesis
    by (auto simp add: leaderArbitration_def publishState_def Let_def
        split: if_splits list.splits option.splits)
next
  case (PassTurn now)
  with assms show ?thesis
    by (auto simp add: rotateTurn_def publishState_def Let_def
        split: if_splits list.splits option.splits)
next
  case (TogglePlayback now)
  with assms show ?thesis
    by (auto simp add: toggleSessionPlayback_def publishState_def Let_def split: if_splits)
next
  case (BpmChange v now now2)
  with assms show ?thesis
    by (auto simp add: bpmInput_def publishState_def Let_def split: if_splits)
next
  case (CycleChange v now now2)
  with assms show ?thesis
    by (auto simp add: cycleInput_def publishState_def Let_def split: if_splits)
next
  case (Commit freshId now)
  with assms show ?thesis
    by (auto simp add: commitDraft_def publishState_fields clearDraft_fields Let_def
        split: if_splits)
qed

theorem publish_stamps_clock_reading_witness:
  "published (perform True (TogglePlayback 900) followerP2) \<noteq> published followerP2
   \<and> published (perform True (TogglePlayback 900) followerP2)
       = published followerP2 @ [sessionState (perform True (TogglePlayback 900) followerP2)]
   \<and> version (sessionState (perform True (TogglePlayback 900) followerP2)) = 900
   \<and> sessionState (perform False (TogglePlayback 900) followerP2)
       = sessionState (perform True (TogglePlayback 900) followerP2)"
proof -
  have h: "published (perform True (TogglePlayback 900) followerP2) \<noteq> published followerP2"
    by (simp add: followerP2_def toggleSessionPlayback_def publishState_def
        onStateMessage_def joinedPeer_def initialSessionState_def Let_def)
  from publish_stamps_clock_reading [OF h] h show ?thesis by simp
qed

section \<open>Genesis\<close>

text \<open>
  C9. When the head of the queue bootstraps (identity ready, channel attached, no state
  loaded, no creator recorded), the state it publishes and adopts has no loops, names the
  bootstrapper as creator and as holder of a turn that starts at the creation timestamp
  and lasts one composition window, plays from that timestamp, and has it as version.
\<close>

theorem genesis_state_shape:
  assumes "identityReady p" and "channel p" and "\<not> stateLoaded p"
    and "queue p = q # qs" and "p_id q = p_id (identity p)"
    and "\<not> truthy (creatorId (sessionState p))"
  shows "published (bootstrapEffect ok now p) = published p @ [sessionState (bootstrapEffect ok now p)]
       \<and> loops (sessionState (bootstrapEffect ok now p)) = []
       \<and> creatorId (sessionState (bootstrapEffect ok now p)) = Some (p_id (identity p))
       \<and> activeTurn (sessionState (bootstrapEffect ok now p))
           = Some \<lparr>userId = p_id (identity p), startedAt = now,
                   endsAt = now + compositionWindowMs p\<rparr>
       \<and> playbackStartedAt (sessionState (bootstrapEffect ok now p)) = Some now
       \<and> version (sessionState (bootstrapEffect ok now p)) = now"
  using assms
  by (simp add: bootstrapEffect_def publishState_def genesisState_def newTurn_def)

theorem genesis_state_shape_witness:
  "identityReady (joinedPeer P0 [P0, P1]) \<and> channel (joinedPeer P0 [P0, P1])
   \<and> \<not> stateLoaded (joinedPeer P0 [P0, P1])
   \<and> queue (joinedPeer P0 [P0, P1]) = [P0, P1]
   \<and> p_id P0 = p_id (identity (joinedPeer P0 [P0, P1]))
   \<and> \<not> truthy (creatorId (sessionState (joinedPeer P0 [P0, P1])))
   \<and> published (bootstrapEffect True 1000 (joinedPeer P0 [P0, P1]))
       = [sessionState (bootstrapEffect True 1000 (joinedPeer P0 [P0, P1]))]
   \<and> sessionState (bootstrapEffect True 1000 (joinedPeer P0 [P0, P1]))
       = \<lparr>bpm = 120, loops = [],
          activeTurn = Some \<lparr>userId = ''P0'', startedAt = 1000, endsAt = 33000\<rparr>,
          version = 1000, creatorId = Some ''P0'', windowCycles = 4,
          playbackStartedAt = Some 1000\<rparr>"
proof -
  let ?p = "joinedPeer P0 [P0, P1]"
  have a: "identityReady ?p" "channel ?p" "\<not> stateLoaded ?p"
    by (simp_all add: joinedPeer_def)
  have q: "queue ?p = P0 # [P1]"
    by (simp add: joinedPeer_def queue_def queueFromPresence_def sortBy_def byJoinedAt_def
        P0_def P1_def)
  have i: "p_id P0 = p_id (identity ?p)" by (simp add: joinedPeer_def)
  have t: "\<not> truthy (creatorId (sessionState ?p))"
    by (simp add: joinedPeer_def initialSessionState_def truthy_def)
  have w: "compositionWindowMs ?p = 32000"
    by (simp add: compositionWindowMs_def joinedPeer_def initialSessionState_def
        windowMsFor_default)
  have e: "published ?p = []" "p_id (identity ?p) = ''P0''"
    "bpm (sessionState (bootstrapEffect True 1000 ?p)) = 120"
    "windowCycles (sessionState (bootstrapEffect True 1000 ?p)) = 4"
    using a q i t
    by (simp_all add: joinedPeer_def P0_def bootstrapEffect_def publishState_def
        genesisState_def initialSessionState_def)
  from genesis_state_shape [OF a q i t, of True 1000] a q i t w e
  show ?thesis by (simp add: SessionState.equality)
qed

section \<open>Loop commit engine: rejection, exclusivity, capacity\<close>

lemma active_steps_first: "filter ((!) (True # replicate 15 False)) [0..<16] = [0]"
  by code_simp

lemma active_steps_none: "filter ((!) (replicate 16 False)) [0..<16] = []"
  by code_simp

lemma drumsToNotes_kickGrid: "drumsToNotes kickGrid = [drumNote kick 0]"
  by (simp add: drumsToNotes_def DRUM_ROWS_def rowNotes_def kickGrid_def createEmptyDrums_def
      STEP_COUNT_def active_steps_first active_steps_none)

lemma drumsToNotes_empty: "drumsToNotes createEmptyDrums = []"
  by (simp add: drumsToNotes_def DRUM_ROWS_def rowNotes_def createEmptyDrums_def STEP_COUNT_def
      active_steps_none)

lemma founderP0_eval:
  "founderP0 =
     (joinedPeer P0 [P0])
       \<lparr>sessionState := genesisState 1000 (joinedPeer P0 [P0]),
        published := [genesisState 1000 (joinedPeer P0 [P0])],
        stateLoaded := True\<rparr>"
  by (simp add: founderP0_def bootstrapEffect_def joinedPeer_def queue_def
      queueFromPresence_def sortBy_def initialSessionState_def truthy_def publishState_def)

lemma holderP0_fields:
  "isMyTurn (holderP0 ls)"
  "loops (sessionState (holderP0 ls)) = ls"
  "draftInstrument (holderP0 ls) = drums"
  "drumsGrid (holderP0 ls) = createEmptyDrums"
  "replaceTarget (holderP0 ls) = None"
  "channel (holderP0 ls)"
  by (simp_all add: holderP0_def founderP0_eval isMyTurn_def genesisState_def newTurn_def
      joinedPeer_def)

lemma set_usedDrumSounds:
  "set (usedDrumSounds p) =
     (\<Union>l \<in> {l \<in> set (loops (sessionState p)). instrument l = drums}. voices (l_notes l))"
  by (auto simp add: usedDrumSounds_def voices_def)

lemma drumConflict_iff:
  "drumConflict p \<noteq> None \<longleftrightarrow>
     draftInstrument p = drums
     \<and> voices (drumsToNotes (drumsGrid p)) \<inter> set (usedDrumSounds p) \<noteq> {}"
proof -
  have eq: "0 < length (filter (\<lambda>s. s \<in> set (usedDrumSounds p))
                          (remdups (map pitch (drumsToNotes (drumsGrid p)))))
        \<longleftrightarrow> voices (drumsToNotes (drumsGrid p)) \<inter> set (usedDrumSounds p) \<noteq> {}"
    by (auto simp add: filter_empty_conv voices_def)
  show ?thesis
    unfolding drumConflict_def Let_def eq by auto
qed

lemma drum_overlap_conflict:
  assumes "draftInstrument p = drums" and "l \<in> set (loops (sessionState p))"
    and "instrument l = drums" and "voices (getDraftNotes p) \<inter> voices (l_notes l) \<noteq> {}"
  shows "drumConflict p \<noteq> None"
proof -
  have "voices (l_notes l) \<subseteq> set (usedDrumSounds p)"
    using assms(2,3) by (auto simp add: set_usedDrumSounds)
  moreover have "getDraftNotes p = drumsToNotes (drumsGrid p)"
    using assms(1) by (simp add: getDraftNotes_def)
  ultimately have "voices (drumsToNotes (drumsGrid p)) \<inter> set (usedDrumSounds p) \<noteq> {}"
    using assms(4) by auto
  with assms(1) show ?thesis using drumConflict_iff by blast
qed

lemma commitDraft_rejected:
  "\<not> isMyTurn p \<or> getDraftNotes p = [] \<or> (draftInstrument p = drums \<and> drumConflict p \<noteq> None)
   \<Longrightarrow> commitDraft ok freshId now p = p"
  by (auto simp add: commitDraft_def)

lemma commitDraft_accepted:
  assumes "isMyTurn p" and "getDraftNotes p \<noteq> []"
    and "draftInstrument p = drums \<longrightarrow> drumConflict p = None"
  shows "loops (sessionState (commitDraft ok freshId now p)) = keepLoops p @ [newLoop freshId now p]"
  using assms
  by (auto simp add: commitDraft_def Let_def clearDraft_fields publishState_fields)

lemma keepLoops_is_filter:
  "\<exists>P. keepLoops p = filter P (loops (sessionState p))"
  by (auto simp add: keepLoops_def Let_def)

lemma drumExclusive_filter: "drumExclusive ls \<Longrightarrow> drumExclusive (filter P ls)"
  by (induction ls) auto

lemma drumExclusive_snoc:
  "drumExclusive (ls @ [n]) \<longleftrightarrow>
     drumExclusive ls
     \<and> (instrument n = drums \<longrightarrow>
          (\<forall>m \<in> set ls. instrument m = drums \<longrightarrow> voices (l_notes m) \<inter> voices (l_notes n) = {}))"
  by (induction ls) auto

text \<open>The recursive predicate says what the property says, position by position.\<close>

lemma drumExclusive_positions:
  "drumExclusive ls \<longleftrightarrow>
     (\<forall>i j. i < j \<and> j < length ls \<and> instrument (ls ! i) = drums \<and> instrument (ls ! j) = drums
        \<longrightarrow> voices (l_notes (ls ! i)) \<inter> voices (l_notes (ls ! j)) = {})"
proof (induction ls)
  case Nil
  then show ?case by simp
next
  case (Cons l ls)
  let ?D = "\<lambda>xs i j. i < j \<and> j < length xs \<and> instrument (xs ! i) = drums
                 \<and> instrument (xs ! j) = drums
               \<longrightarrow> voices (l_notes (xs ! i)) \<inter> voices (l_notes (xs ! j)) = {}"
  show ?case
  proof
    assume ex: "drumExclusive (l # ls)"
    show "\<forall>i j. ?D (l # ls) i j"
    proof (intro allI)
      fix i j
      show "?D (l # ls) i j"
      proof (cases i)
        case 0
        with ex show ?thesis by (cases j) auto
      next
        case (Suc i')
        with ex Cons show ?thesis by (cases j) auto
      qed
    qed
  next
    assume all: "\<forall>i j. ?D (l # ls) i j"
    have tail: "\<forall>i j. ?D ls i j"
    proof (intro allI)
      fix i j
      from all have "?D (l # ls) (Suc i) (Suc j)" by blast
      then show "?D ls i j" by simp
    qed
    have head: "instrument l = drums \<longrightarrow>
        (\<forall>m \<in> set ls. instrument m = drums \<longrightarrow> voices (l_notes l) \<inter> voices (l_notes m) = {})"
    proof (intro impI ballI)
      fix m
      assume l: "instrument l = drums" and m: "m \<in> set ls" and md: "instrument m = drums"
      from m obtain k where k: "k < length ls" "ls ! k = m" by (auto simp add: in_set_conv_nth)
      from all have "?D (l # ls) 0 (Suc k)" by blast
      with l md k show "voices (l_notes l) \<inter> voices (l_notes m) = {}" by simp
    qed
    from tail head Cons show "drumExclusive (l # ls)" by simp
  qed
qed

text \<open>
  C8. Whenever \<^verbatim>\<open>commitDraft\<close> is invoked while a precondition fails (the caller does
  not hold the active turn, the draft has no notes, or a drum-voice conflict stands), the
  session state is unchanged and nothing is handed to the relay; indeed no field of the
  peer changes.
\<close>

theorem commit_failure_leaves_peer_unchanged:
  assumes "\<not> isMyTurn p \<or> getDraftNotes p = []
           \<or> (draftInstrument p = drums \<and> drumConflict p \<noteq> None)"
  shows "sessionState (commitDraft ok freshId now p) = sessionState p
       \<and> published (commitDraft ok freshId now p) = published p
       \<and> commitDraft ok freshId now p = p"
  using assms by (simp add: commitDraft_rejected)

text \<open>
  C7. A drum draft that uses a voice found in the notes of a committed drum loop is
  rejected by \<^verbatim>\<open>commitDraft\<close>: the peer is left as it is and nothing is published.
  Consequently a commit from a state in which no voice is used by two drum loops leads
  to a state with the same property.
\<close>

theorem drum_voice_exclusivity:
  "(draftInstrument p = drums \<and> l \<in> set (loops (sessionState p)) \<and> instrument l = drums
      \<and> voices (getDraftNotes p) \<inter> voices (l_notes l) \<noteq> {}
     \<longrightarrow> commitDraft ok freshId now p = p)
   \<and> (drumExclusive (loops (sessionState p))
     \<longrightarrow> drumExclusive (loops (sessionState (commitDraft ok freshId now p))))"
proof (intro conjI impI)
  assume "draftInstrument p = drums \<and> l \<in> set (loops (sessionState p)) \<and> instrument l = drums
      \<and> voices (getDraftNotes p) \<inter> voices (l_notes l) \<noteq> {}"
  then have "draftInstrument p = drums \<and> drumConflict p \<noteq> None"
    using drum_overlap_conflict by blast
  then show "commitDraft ok freshId now p = p"
    by (simp add: commitDraft_rejected)
next
  assume ex: "drumExclusive (loops (sessionState p))"
  show "drumExclusive (loops (sessionState (commitDraft ok freshId now p)))"
  proof (cases "isMyTurn p \<and> getDraftNotes p \<noteq> []
                \<and> (draftInstrument p = drums \<longrightarrow> drumConflict p = None)")
    case False
    then have "commitDraft ok freshId now p = p"
      by (intro commitDraft_rejected) auto
    with ex show ?thesis by simp
  next
    case True
    then have ls: "loops (sessionState (commitDraft ok freshId now p))
                   = keepLoops p @ [newLoop freshId now p]"
      by (simp add: commitDraft_accepted)
    obtain P where kp: "keepLoops p = filter P (loops (sessionState p))"
      using keepLoops_is_filter by blast
    have kept: "drumExclusive (keepLoops p)"
      using ex kp by (simp add: drumExclusive_filter)
    have fresh: "instrument (newLoop freshId now p) = drums \<longrightarrow>
        (\<forall>m \<in> set (keepLoops p). instrument m = drums \<longrightarrow>
            voices (l_notes m) \<inter> voices (l_notes (newLoop freshId now p)) = {})"
    proof (intro impI ballI)
      fix m
      assume d: "instrument (newLoop freshId now p) = drums"
        and m: "m \<in> set (keepLoops p)" and md: "instrument m = drums"
      from d have di: "draftInstrument p = drums" by (simp add: newLoop_def)
      from m kp have min: "m \<in> set (loops (sessionState p))" by simp
      have "voices (getDraftNotes p) \<inter> voices (l_notes m) = {}"
      proof (rule ccontr)
        assume "voices (getDraftNotes p) \<inter> voices (l_notes m) \<noteq> {}"
        then have "drumConflict p \<noteq> None" by (rule drum_overlap_conflict [OF di min md])
        with True di show False by simp
      qed
      then show "voices (l_notes m) \<inter> voices (l_notes (newLoop freshId now p)) = {}"
        by (auto simp add: newLoop_def)
    qed
    from kept fresh ls show ?thesis by (simp add: drumExclusive_snoc)
  qed
qed

lemma isMyTurn_draft_update:
  "isMyTurn (p\<lparr>drumsGrid := g\<rparr>) = isMyTurn p"
  "isMyTurn (p\<lparr>replaceTarget := t\<rparr>) = isMyTurn p"
  "isMyTurn (p\<lparr>draftInstrument := i\<rparr>) = isMyTurn p"
  "isMyTurn (p\<lparr>pianoKeys := ns\<rparr>) = isMyTurn p"
  by (simp_all add: isMyTurn_def split: option.splits)

lemma getDraftNotes_target_update:
  "getDraftNotes (p\<lparr>replaceTarget := t\<rparr>) = getDraftNotes p"
  by (simp add: getDraftNotes_def)

lemma kickDraft_fields:
  "isMyTurn (kickDraft ls)"
  "loops (sessionState (kickDraft ls)) = ls"
  "draftInstrument (kickDraft ls) = drums"
  "getDraftNotes (kickDraft ls) = [drumNote kick 0]"
  "replaceTarget (kickDraft ls) = None"
  by (simp_all add: kickDraft_def holderP0_fields isMyTurn_draft_update getDraftNotes_def
      drumsToNotes_kickGrid)

theorem commit_failure_witness:
  "\<not> isMyTurn scenarioB
   \<and> commitDraft True ''Xk29fQ1b'' 41000 scenarioB = scenarioB
   \<and> getDraftNotes (holderP0 []) = []
   \<and> commitDraft True ''Xk29fQ1b'' 41000 (holderP0 []) = holderP0 []
   \<and> draftInstrument (kickDraft [drumLoopOf ''d1'' kick]) = drums
   \<and> drumConflict (kickDraft [drumLoopOf ''d1'' kick]) = Some [''kick'']
   \<and> commitDraft True ''Xk29fQ1b'' 41000 (kickDraft [drumLoopOf ''d1'' kick])
       = kickDraft [drumLoopOf ''d1'' kick]"
proof -
  have a: "\<not> isMyTurn scenarioB"
    by (simp add: isMyTurn_def scenarioB_def joinedPeer_def P0_def)
  have b: "getDraftNotes (holderP0 []) = []"
    by (simp add: getDraftNotes_def holderP0_fields drumsToNotes_empty)
  have c: "draftInstrument (kickDraft [drumLoopOf ''d1'' kick]) = drums"
    by (simp add: kickDraft_fields)
  have d: "drumConflict (kickDraft [drumLoopOf ''d1'' kick]) = Some [''kick'']"
    by (simp add: drumConflict_def usedDrumSounds_def kickDraft_fields Let_def)
      (simp add: kickDraft_def drumsToNotes_kickGrid drumLoopOf_def drumNote_def)
  from commit_failure_leaves_peer_unchanged [of scenarioB True "''Xk29fQ1b''" 41000]
    commit_failure_leaves_peer_unchanged [of "holderP0 []" True "''Xk29fQ1b''" 41000]
    commit_failure_leaves_peer_unchanged
      [of "kickDraft [drumLoopOf ''d1'' kick]" True "''Xk29fQ1b''" 41000]
    a b c d
  show ?thesis by simp
qed

theorem drum_voice_exclusivity_witness:
  "draftInstrument (kickDraft [drumLoopOf ''d1'' kick]) = drums
   \<and> drumLoopOf ''d1'' kick \<in> set (loops (sessionState (kickDraft [drumLoopOf ''d1'' kick])))
   \<and> instrument (drumLoopOf ''d1'' kick) = drums
   \<and> voices (getDraftNotes (kickDraft [drumLoopOf ''d1'' kick]))
        \<inter> voices (l_notes (drumLoopOf ''d1'' kick)) \<noteq> {}
   \<and> commitDraft True ''Xk29fQ1b'' 41000 (kickDraft [drumLoopOf ''d1'' kick])
       = kickDraft [drumLoopOf ''d1'' kick]
   \<and> drumExclusive (loops (sessionState (kickDraft [keysLoopOf ''k1'', drumLoopOf ''d1'' snare])))
   \<and> map l_id (loops (sessionState
        (commitDraft True ''Xk29fQ1b'' 41000 (kickDraft [keysLoopOf ''k1'', drumLoopOf ''d1'' snare]))))
       = [''k1'', ''Xk29fQ1b'']
   \<and> drumExclusive (loops (sessionState
        (commitDraft True ''Xk29fQ1b'' 41000 (kickDraft [keysLoopOf ''k1'', drumLoopOf ''d1'' snare]))))"
proof -
  let ?p = "kickDraft [drumLoopOf ''d1'' kick]"
  let ?q = "kickDraft [keysLoopOf ''k1'', drumLoopOf ''d1'' snare]"
  have a: "draftInstrument ?p = drums"
    "drumLoopOf ''d1'' kick \<in> set (loops (sessionState ?p))"
    "instrument (drumLoopOf ''d1'' kick) = drums"
    by (simp_all add: kickDraft_fields drumLoopOf_def)
  have v: "voices (getDraftNotes ?p) \<inter> voices (l_notes (drumLoopOf ''d1'' kick)) \<noteq> {}"
    by (simp add: kickDraft_fields voices_def drumLoopOf_def)
  have e: "drumExclusive (loops (sessionState ?q))"
    by (simp add: kickDraft_fields drumLoopOf_def keysLoopOf_def)
  have nc: "drumConflict ?q = None"
    by (simp add: drumConflict_def usedDrumSounds_def kickDraft_fields Let_def)
      (simp add: kickDraft_def drumsToNotes_kickGrid drumLoopOf_def keysLoopOf_def drumNote_def)
  have k: "keepLoops ?q = [keysLoopOf ''k1'']"
    by (simp add: keepLoops_def kickDraft_fields Let_def loopLimit_def DRUM_LOOP_LIMIT_def
        drumLoopOf_def keysLoopOf_def)
  have l: "map l_id (loops (sessionState (commitDraft True ''Xk29fQ1b'' 41000 ?q)))
           = [''k1'', ''Xk29fQ1b'']"
    using nc k
    by (simp add: commitDraft_accepted kickDraft_fields) (simp add: keysLoopOf_def newLoop_def)
  from drum_voice_exclusivity [of ?p "drumLoopOf ''d1'' kick" True "''Xk29fQ1b''" 41000]
    drum_voice_exclusivity [of ?q "keysLoopOf ''k1''" True "''Xk29fQ1b''" 41000]
    a v e l
  show ?thesis by simp
qed

text \<open>
  C10. With the drums at capacity, a drum draft that shares a voice with the drum loop
  that the replacement would remove is rejected all the same: the sounds in use are
  collected from every committed drum loop, the one to be replaced included, before any
  replacement happens.
\<close>

theorem replaced_drum_loop_still_conflicts:
  assumes "draftInstrument p = drums"
    and "DRUM_LOOP_LIMIT \<le> loopCount drums (loops (sessionState p))"
    and "l \<in> set (loops (sessionState p))" and "l \<notin> set (keepLoops p)"
    and "instrument l = drums"
    and "voices (getDraftNotes p) \<inter> voices (l_notes l) \<noteq> {}"
  shows "voices (l_notes l) \<subseteq> set (usedDrumSounds p)
       \<and> drumConflict p \<noteq> None
       \<and> commitDraft ok freshId now p = p"
proof -
  have u: "voices (l_notes l) \<subseteq> set (usedDrumSounds p)"
    using assms(3,5) by (auto simp add: set_usedDrumSounds)
  have c: "drumConflict p \<noteq> None"
    using assms(1,3,5,6) by (rule drum_overlap_conflict)
  with assms(1) have "commitDraft ok freshId now p = p"
    by (intro commitDraft_rejected) simp
  with u c show ?thesis by simp
qed

theorem replaced_drum_loop_witness:
  "draftInstrument fullDrums = drums
   \<and> DRUM_LOOP_LIMIT \<le> loopCount drums (loops (sessionState fullDrums))
   \<and> drumLoopOf ''d1'' kick \<in> set (loops (sessionState fullDrums))
   \<and> drumLoopOf ''d1'' kick \<notin> set (keepLoops fullDrums)
   \<and> instrument (drumLoopOf ''d1'' kick) = drums
   \<and> voices (getDraftNotes fullDrums) \<inter> voices (l_notes (drumLoopOf ''d1'' kick)) \<noteq> {}
   \<and> isMyTurn fullDrums \<and> getDraftNotes fullDrums \<noteq> []
   \<and> commitDraft True ''Xk29fQ1b'' 41000 fullDrums = fullDrums"
proof -
  have f: "draftInstrument fullDrums = drums" "isMyTurn fullDrums"
    "getDraftNotes fullDrums = [drumNote kick 0]"
    "replaceTarget fullDrums = Some ''d1''"
    "loops (sessionState fullDrums)
       = [drumLoopOf ''d1'' kick, drumLoopOf ''d2'' snare, drumLoopOf ''d3'' hat,
          drumLoopOf ''d4'' clap]"
    using kickDraft_fields
      [of "[drumLoopOf ''d1'' kick, drumLoopOf ''d2'' snare, drumLoopOf ''d3'' hat,
           drumLoopOf ''d4'' clap]"]
    by (simp_all add: fullDrums_def isMyTurn_draft_update getDraftNotes_target_update)
  have n: "DRUM_LOOP_LIMIT \<le> loopCount drums (loops (sessionState fullDrums))"
    by (simp add: f loopCount_def DRUM_LOOP_LIMIT_def drumLoopOf_def)
  have m: "drumLoopOf ''d1'' kick \<in> set (loops (sessionState fullDrums))"
    "instrument (drumLoopOf ''d1'' kick) = drums"
    by (simp_all add: f drumLoopOf_def)
  have k: "drumLoopOf ''d1'' kick \<notin> set (keepLoops fullDrums)"
    by (simp add: keepLoops_def f Let_def loopLimit_def DRUM_LOOP_LIMIT_def drumLoopOf_def)
  have v: "voices (getDraftNotes fullDrums) \<inter> voices (l_notes (drumLoopOf ''d1'' kick)) \<noteq> {}"
    by (simp add: f voices_def drumLoopOf_def)
  from replaced_drum_loop_still_conflicts [OF f(1) n m(1) k m(2) v, of True "''Xk29fQ1b''" 41000]
    f n m k v
  show ?thesis by simp
qed

lemma loopCount_snoc:
  "loopCount i (ls @ [n]) = loopCount i ls + (if instrument n = i then 1 else 0)"
  by (simp add: loopCount_def)

lemma loopCount_filter_le: "loopCount i (filter P ls) \<le> loopCount i ls"
  by (induction ls) (auto simp add: loopCount_def)

lemma loopCount_drop_one:
  assumes "e \<in> set ls" and "instrument e = i" and "\<not> P e"
  shows "loopCount i (filter P ls) < loopCount i ls"
proof -
  let ?same = "filter (\<lambda>l. instrument l = i) ls"
  have swap: "filter (\<lambda>l. instrument l = i) (filter P ls) = filter P ?same"
    by (induction ls) auto
  have "e \<in> set ?same"
    using assms(1,2) by simp
  then have "length (filter P ?same) < length ?same"
    using assms(3) by (rule length_filter_less)
  then show ?thesis
    unfolding loopCount_def swap .
qed

lemma withinCapacity_all:
  "withinCapacity ls \<longleftrightarrow> (\<forall>i. loopCount i ls \<le> loopLimit i)"
proof
  assume w: "withinCapacity ls"
  show "\<forall>i. loopCount i ls \<le> loopLimit i"
  proof
    fix i
    from w show "loopCount i ls \<le> loopLimit i"
      by (cases i) (simp_all add: withinCapacity_def)
  qed
next
  assume "\<forall>i. loopCount i ls \<le> loopLimit i"
  then show "withinCapacity ls" by (simp add: withinCapacity_def)
qed

lemma loopLimit_ge_2: "2 \<le> loopLimit i"
  by (simp add: loopLimit_def DRUM_LOOP_LIMIT_def MELODIC_LOOP_LIMIT_def)

text \<open>
  With no replacement target, or one that names a committed loop of the draft's
  instrument, a commit keeps every instrument within its capacity.
\<close>

lemma commit_keeps_capacity_for_valid_target:
  assumes cap: "withinCapacity (loops (sessionState p))"
    and target: "replaceTarget p = None
                 \<or> (\<exists>l \<in> set (loops (sessionState p)).
                       instrument l = draftInstrument p \<and> replaceTarget p = Some (l_id l))"
  shows "withinCapacity (loops (sessionState (commitDraft ok freshId now p)))"
proof (cases "isMyTurn p \<and> getDraftNotes p \<noteq> []
              \<and> (draftInstrument p = drums \<longrightarrow> drumConflict p = None)")
  case False
  then have "commitDraft ok freshId now p = p"
    by (intro commitDraft_rejected) auto
  with cap show ?thesis by simp
next
  case True
  let ?ls = "loops (sessionState p)"
  let ?D = "draftInstrument p"
  have ls: "loops (sessionState (commitDraft ok freshId now p))
            = keepLoops p @ [newLoop freshId now p]"
    using True by (simp add: commitDraft_accepted)
  have inst: "instrument (newLoop freshId now p) = ?D" by (simp add: newLoop_def)
  obtain P where kp: "keepLoops p = filter P ?ls"
    using keepLoops_is_filter by blast
  have bound: "loopCount i (keepLoops p @ [newLoop freshId now p]) \<le> loopLimit i" for i
  proof (cases "i = ?D")
    case False
    have "loopCount i (keepLoops p) \<le> loopCount i ?ls"
      unfolding kp by (rule loopCount_filter_le)
    also have "\<dots> \<le> loopLimit i" using cap by (simp add: withinCapacity_all)
    finally show ?thesis using False inst by (simp add: loopCount_snoc)
  next
    case i: True
    show ?thesis
    proof (cases "loopLimit ?D \<le> loopCount ?D ?ls")
      case False
      then have "keepLoops p = filter (\<lambda>l. instrument l \<noteq> ?D) ?ls"
        by (simp add: keepLoops_def loopCount_def Let_def)
      then have "loopCount ?D (keepLoops p) = 0"
        by (simp add: loopCount_def)
      with loopLimit_ge_2 [of ?D] i inst show ?thesis by (simp add: loopCount_snoc)
    next
      case full: True
      let ?existing = "filter (\<lambda>l. instrument l = ?D) ?ls"
      let ?c = "case replaceTarget p of Some t \<Rightarrow> t | None \<Rightarrow> l_id (hd ?existing)"
      have k: "keepLoops p = filter (\<lambda>l. l_id l \<noteq> ?c) ?ls"
        using full by (simp add: keepLoops_def loopCount_def Let_def)
      have ne: "?existing \<noteq> []"
        using full loopLimit_ge_2 [of ?D] by (auto simp add: loopCount_def)
      have "\<exists>e \<in> set ?ls. instrument e = ?D \<and> l_id e = ?c"
      proof (cases "replaceTarget p")
        case None
        from ne have "hd ?existing \<in> set ?existing" by (rule hd_in_set)
        then have "hd ?existing \<in> set ?ls \<and> instrument (hd ?existing) = ?D" by simp
        with None show ?thesis by auto
      next
        case (Some t)
        with target show ?thesis by auto
      qed
      then obtain e where e: "e \<in> set ?ls" "instrument e = ?D" "l_id e = ?c" by blast
      have "loopCount ?D (keepLoops p) < loopCount ?D ?ls"
        unfolding k using e by (intro loopCount_drop_one [of e]) simp_all
      moreover have "loopCount ?D ?ls \<le> loopLimit ?D"
        using cap by (simp add: withinCapacity_all)
      ultimately show ?thesis using i inst by (simp add: loopCount_snoc)
    qed
  qed
  then show ?thesis by (simp add: withinCapacity_all ls)
qed












end
